theory Spec2Isabelle
  imports Complex_Main
begin

section \<open>Numbers\<close>

text \<open>
  The module \<^verbatim>\<open>iso_diag_BE.py\<close> computes with Python numbers and with numpy
  \<^verbatim>\<open>float64\<close> values. A value of either kind is finite, plus or minus infinity, or
  not a number; the sign of zero is not kept (a zero divides like \<^verbatim>\<open>+0.0\<close>). The two
  kinds differ where the code itself differs: Python's scalar division raises
  \<^verbatim>\<open>ZeroDivisionError\<close> on a zero divisor and its \<^verbatim>\<open>**\<close> raises \<^verbatim>\<open>OverflowError\<close>,
  while numpy only warns and returns an infinity or NaN.

  Arithmetic comes in two layers.

  \<^item> Exact arithmetic (this section): a finite result is the real number itself. The
    mixing curve is modelled in it, for the properties that are stated in exact
    arithmetic.
  \<^item> \<^verbatim>\<open>float64\<close> arithmetic (next section): a finite result is rounded to the nearest
    \<^verbatim>\<open>float64\<close>, ties to even, with underflow and overflow. The equilibrium model is
    modelled in it, and so is the mixing curve where the kind of number decides what
    the code does.
\<close>

datatype py_error =
  ZeroDivisionError | OverflowError | IndexError | UnboundLocalError | GeneratorError

datatype f64 = Fin real | PInf | NInf | NaN

definition py_div :: "real \<Rightarrow> real \<Rightarrow> py_error + real" where
  "py_div a b = (if b = 0 then Inl ZeroDivisionError else Inr (a / b))"

fun np_neg :: "f64 \<Rightarrow> f64" where
  "np_neg (Fin x) = Fin (- x)"
| "np_neg PInf = NInf"
| "np_neg NInf = PInf"
| "np_neg NaN = NaN"

fun np_add :: "f64 \<Rightarrow> f64 \<Rightarrow> f64" where
  "np_add (Fin x) (Fin y) = Fin (x + y)"
| "np_add NaN _ = NaN"
| "np_add _ NaN = NaN"
| "np_add PInf NInf = NaN"
| "np_add NInf PInf = NaN"
| "np_add PInf _ = PInf"
| "np_add _ PInf = PInf"
| "np_add NInf _ = NInf"
| "np_add _ NInf = NInf"

definition np_sub :: "f64 \<Rightarrow> f64 \<Rightarrow> f64" where
  "np_sub a b = np_add a (np_neg b)"

text \<open>The sign of an infinity scaled by a finite factor; zero times infinity is NaN.\<close>

definition scale_inf :: "real \<Rightarrow> f64 \<Rightarrow> f64" where
  "scale_inf x i = (if x = 0 then NaN else if 0 < x then i else np_neg i)"

fun np_mul :: "f64 \<Rightarrow> f64 \<Rightarrow> f64" where
  "np_mul (Fin x) (Fin y) = Fin (x * y)"
| "np_mul NaN _ = NaN"
| "np_mul _ NaN = NaN"
| "np_mul (Fin x) i = scale_inf x i"
| "np_mul i (Fin y) = scale_inf y i"
| "np_mul PInf i = i"
| "np_mul NInf i = np_neg i"

text \<open>
  Division of numpy values. A finite zero divisor stands for \<^verbatim>\<open>+0.0\<close>: a nonzero
  dividend gives an infinity of the dividend's sign, and \<^verbatim>\<open>0/0\<close> is NaN.
\<close>

fun np_div :: "f64 \<Rightarrow> f64 \<Rightarrow> f64" where
  "np_div (Fin x) (Fin y) =
     (if y = 0 then (if x = 0 then NaN else if 0 < x then PInf else NInf)
      else Fin (x / y))"
| "np_div NaN _ = NaN"
| "np_div _ NaN = NaN"
| "np_div (Fin x) _ = Fin 0"
| "np_div i (Fin y) = (if 0 \<le> y then i else np_neg i)"
| "np_div PInf PInf = NaN"
| "np_div PInf NInf = NaN"
| "np_div NInf PInf = NaN"
| "np_div NInf NInf = NaN"

text \<open>
  \<^verbatim>\<open>np.exp\<close> and \<^verbatim>\<open>np.log\<close> in the exact layer: a finite result is the real value,
  with no rounding and no overflow. (Their \<^verbatim>\<open>float64\<close> counterparts, which round and
  overflow, are \<open>fl_exp\<close> and \<open>fl_log\<close> below.)
\<close>

fun np_exp :: "f64 \<Rightarrow> f64" where
  "np_exp (Fin x) = Fin (exp x)"
| "np_exp PInf = PInf"
| "np_exp NInf = Fin 0"
| "np_exp NaN = NaN"

fun np_log :: "f64 \<Rightarrow> f64" where
  "np_log (Fin x) = (if 0 < x then Fin (ln x) else if x = 0 then NInf else NaN)"
| "np_log PInf = PInf"
| "np_log NInf = NaN"
| "np_log NaN = NaN"


text \<open>
  \<^verbatim>\<open>np.linspace(start, stop)\<close> with its default of 50 samples and the endpoint
  included: sample \<open>i\<close> is \<open>i * step + start\<close> with \<open>step = (stop - start) / 49\<close>, and
  the last sample is then overwritten with \<open>stop\<close> itself.
\<close>

definition linspace :: "f64 \<Rightarrow> f64 \<Rightarrow> f64 list" where
  "linspace start stop =
     (let step = np_div (np_sub stop start) (Fin 49)
      in (map (\<lambda>i. np_add (np_mul (Fin (real i)) step) start) [0..<50])[49 := stop])"

section \<open>float64 arithmetic\<close>

text \<open>
  Rounding of a real to the nearest integer, ties to the even one.
\<close>

definition rne :: "real \<Rightarrow> int" where
  "rne x =
     (let f = \<lfloor>x\<rfloor>; d = x - of_int f
      in if d < 1 / 2 then f else if 1 / 2 < d then f + 1 else if even f then f else f + 1)"

text \<open>
  The binary exponent of \<open>x\<close>, held at \<open>-1022\<close> in the subnormal range, and the
  spacing of the \<^verbatim>\<open>float64\<close> values around \<open>x\<close>: 52 fraction bits below that
  exponent.
\<close>

definition binade :: "real \<Rightarrow> int" where
  "binade x = max \<lfloor>log 2 \<bar>x\<bar>\<rfloor> (- 1022)"

definition ulp :: "real \<Rightarrow> real" where
  "ulp x = 2 powr of_int (binade x - 52)"

definition round64 :: "real \<Rightarrow> real" where
  "round64 x = of_int (rne (x / ulp x)) * ulp x"

text \<open>
  The \<^verbatim>\<open>float64\<close> nearest to a real: the rounded value, or an infinity when rounding
  reaches \<open>2\<^sup>1\<^sup>0\<^sup>2\<^sup>4\<close>. A Python literal such as \<^verbatim>\<open>273.15\<close> is the \<^verbatim>\<open>float64\<close>
  nearest to the decimal.
\<close>

definition to_f64 :: "real \<Rightarrow> f64" where
  "to_f64 x =
     (let r = round64 x
      in if 2 ^ 1024 \<le> r then PInf else if r \<le> - (2 ^ 1024) then NInf else Fin r)"

definition lit :: "real \<Rightarrow> f64" where
  "lit x = to_f64 x"

text \<open>
  The operations on \<^verbatim>\<open>float64\<close> values: on two finite operands the exact result,
  rounded; otherwise as in the exact layer. \<^verbatim>\<open>np.exp\<close> and \<^verbatim>\<open>np.log\<close> are taken as
  correctly rounded; what is proved about them below uses bounds only.
\<close>

fun fl_add :: "f64 \<Rightarrow> f64 \<Rightarrow> f64" where
  "fl_add (Fin x) (Fin y) = to_f64 (x + y)"
| "fl_add a b = np_add a b"

definition fl_sub :: "f64 \<Rightarrow> f64 \<Rightarrow> f64" where
  "fl_sub a b = fl_add a (np_neg b)"

fun fl_mul :: "f64 \<Rightarrow> f64 \<Rightarrow> f64" where
  "fl_mul (Fin x) (Fin y) = to_f64 (x * y)"
| "fl_mul a b = np_mul a b"

fun fl_div :: "f64 \<Rightarrow> f64 \<Rightarrow> f64" where
  "fl_div (Fin x) (Fin y) = (if y = 0 then np_div (Fin x) (Fin y) else to_f64 (x / y))"
| "fl_div a b = np_div a b"

fun fl_exp :: "f64 \<Rightarrow> f64" where
  "fl_exp (Fin x) = to_f64 (exp x)"
| "fl_exp a = np_exp a"



text \<open>
  A scalar with its kind: a Python \<^verbatim>\<open>float\<close> or a numpy \<^verbatim>\<open>float64\<close>. An operation on
  two Python floats is Python's and gives a Python float; with a numpy operand it is
  numpy's and gives a numpy scalar. The integer literals of the module (\<open>24844\<close>,
  \<open>1000\<close>, \<open>1\<close>) are exactly \<^verbatim>\<open>float64\<close> values and take part as these. Inputs are
  floats; inputs of type \<^verbatim>\<open>int\<close> are not modelled here.
\<close>

datatype num = Py f64 | Np f64

fun val :: "num \<Rightarrow> f64" where
  "val (Py v) = v"
| "val (Np v) = v"

fun is_py :: "num \<Rightarrow> bool" where
  "is_py (Py v) = True"
| "is_py (Np v) = False"

fun both_py :: "num \<Rightarrow> num \<Rightarrow> bool" where
  "both_py (Py a) (Py b) = True"
| "both_py _ _ = False"

definition kind_of :: "num \<Rightarrow> num \<Rightarrow> f64 \<Rightarrow> num" where
  "kind_of a b v = (if both_py a b then Py v else Np v)"

definition num_add :: "num \<Rightarrow> num \<Rightarrow> num" where
  "num_add a b = kind_of a b (fl_add (val a) (val b))"

definition num_sub :: "num \<Rightarrow> num \<Rightarrow> num" where
  "num_sub a b = kind_of a b (fl_sub (val a) (val b))"

definition num_mul :: "num \<Rightarrow> num \<Rightarrow> num" where
  "num_mul a b = kind_of a b (fl_mul (val a) (val b))"

text \<open>
  \<^verbatim>\<open>a / b\<close>: between two Python floats a zero divisor raises; numpy returns an
  infinity or NaN.
\<close>

definition num_div :: "num \<Rightarrow> num \<Rightarrow> py_error + num" where
  "num_div a b =
     (if both_py a b \<and> val b = Fin 0 then Inl ZeroDivisionError
      else Inr (kind_of a b (fl_div (val a) (val b))))"

text \<open>
  \<^verbatim>\<open>a ** 2\<close>: for a finite Python float whose square overflows, Python raises
  \<^verbatim>\<open>OverflowError\<close>; a square that underflows is \<open>0.0\<close> or subnormal, without error;
  numpy returns an infinity.
\<close>

definition num_pow2 :: "num \<Rightarrow> py_error + num" where
  "num_pow2 a =
     (case a of
        Py (Fin x) \<Rightarrow>
          (case to_f64 (x * x) of Fin s \<Rightarrow> Inr (Py (Fin s)) | _ \<Rightarrow> Inl OverflowError)
      | Py v \<Rightarrow> Inr (Py (fl_mul v v))
      | Np v \<Rightarrow> Inr (Np (fl_mul v v)))"

section \<open>Equilibrium fractionation and disequilibrium\<close>

text \<open>
  \<^verbatim>\<open>aeq(T)\<close> is \<^verbatim>\<open>1 / np.exp(24844 / T**2 - 76.248 / T + 0.05261)\<close>. The argument of
  \<^verbatim>\<open>np.exp\<close> is scalar arithmetic on \<open>T\<close>, of the kind of \<open>T\<close>: for a Python float the
  square and the two quotients can raise, left to right. \<^verbatim>\<open>np.exp\<close> gives a numpy
  value, and so does the reciprocal.
\<close>

definition aeq :: "num \<Rightarrow> py_error + f64" where
  "aeq T =
     (case num_pow2 T of
        Inl e \<Rightarrow> Inl e
      | Inr T2 \<Rightarrow>
          (case num_div (Py (Fin 24844)) T2 of
             Inl e \<Rightarrow> Inl e
           | Inr a \<Rightarrow>
               (case num_div (Py (lit 76.248)) T of
                  Inl e \<Rightarrow> Inl e
                | Inr b \<Rightarrow>
                    Inr (fl_div (Fin 1)
                          (fl_exp (val (num_add (num_sub a b) (Py (lit 0.05261)))))))))"

text \<open>
  The formula of the specification, \<open>1 / exp (24844 / T\<^sup>2 - 76.248 / T + 0.05261)\<close>,
  evaluated in \<^verbatim>\<open>float64\<close> arithmetic at a finite \<open>T\<close>, with no regard to what may
  raise.
\<close>

definition aeq_formula :: "real \<Rightarrow> f64" where
  "aeq_formula x =
     fl_div (Fin 1)
       (fl_exp (fl_add (fl_sub (fl_div (Fin 24844) (to_f64 (x * x)))
                               (fl_div (lit 76.248) (Fin x)))
                       (lit 0.05261)))"

text \<open>
  \<^verbatim>\<open>get_dDdeq(T, dDv, dDr)\<close>: \<^verbatim>\<open>dDeq = aeq(T + 273.15) * (dDr + 1000) - 1000\<close>, then
  \<^verbatim>\<open>dDv - dDeq\<close>. Only the kind of \<open>T\<close> matters: sums, differences and products
  raise in neither kind and have the same value in both, so \<open>dDv\<close> and \<open>dDr\<close> are
  plain \<^verbatim>\<open>float64\<close> values.
\<close>

definition get_dDdeq :: "num \<Rightarrow> f64 \<Rightarrow> f64 \<Rightarrow> py_error + f64" where
  "get_dDdeq T dDv dDr =
     (case aeq (num_add T (Py (lit 273.15))) of
        Inl e \<Rightarrow> Inl e
      | Inr a \<Rightarrow>
          (let dDeq = fl_sub (fl_mul a (fl_add dDr (Fin 1000))) (Fin 1000);
               dDdeq = fl_sub dDv dDeq
           in Inr dDdeq))"

section \<open>Rayleigh adapter\<close>

text \<open>
  A Python value handed on to the Rayleigh generator untouched: \<^verbatim>\<open>None\<close> or a number.
\<close>

datatype pyval = PyNone | PyNum real

text \<open>
  \<^verbatim>\<open>calc_rayleigh(T0, rh0, dD0, f = 1, T_g = -30)\<close> returns
  \<^verbatim>\<open>RayleighTropen(T0, rh0, dD0, f, T_g)\<close>. The generator comes from the module
  \<^verbatim>\<open>create_rayleigh_curves\<close> and is a parameter here; its result \<open>'r\<close> stands for
  whatever it does, a raised error included. An omitted keyword argument is \<open>None\<close>
  of the option type and takes the default of the signature.
\<close>

definition calc_rayleigh ::
  "(pyval \<Rightarrow> pyval \<Rightarrow> pyval \<Rightarrow> pyval \<Rightarrow> pyval \<Rightarrow> 'r) \<Rightarrow>
   pyval \<Rightarrow> pyval \<Rightarrow> pyval \<Rightarrow> pyval option \<Rightarrow> pyval option \<Rightarrow> 'r" where
  "calc_rayleigh RayleighTropen T0 rh0 dD0 f T_g =
     RayleighTropen T0 rh0 dD0
       (case f of None \<Rightarrow> PyNum 1 | Some v \<Rightarrow> v)
       (case T_g of None \<Rightarrow> PyNum (- 30) | Some v \<Rightarrow> v)"

section \<open>Mixing curve\<close>

text \<open>
  \<^verbatim>\<open>calc_mixing(p0, p1, l_log = True)\<close>, in exact arithmetic. The endpoints are pairs
  of Python numbers \<^verbatim>\<open>[H2O, dD]\<close>. The sampling axis (the \<^verbatim>\<open>if l_log: ... else: ...\<close> of the
  function) is numpy's work and never raises.
\<close>

definition mixing_samples :: "real \<Rightarrow> real \<Rightarrow> bool \<Rightarrow> f64 list" where
  "mixing_samples q0 q1 l_log =
     (if l_log
      then map np_exp (linspace (np_log (Fin q0)) (np_log (Fin q1)))
      else linspace (Fin q0) (Fin q1))"

text \<open>
  The samples \<open>q\<close> are built first; then \<open>dDf\<close> is a quotient of Python numbers,
  which raises when \<open>q1 - q0\<close> is zero; \<open>dD\<close> is computed sample by sample from
  the array \<open>q\<close>, as \<^verbatim>\<open>q0 * (dD0 - dDf) * (1/q) + dDf\<close>.
\<close>

definition calc_mixing ::
  "real \<times> real \<Rightarrow> real \<times> real \<Rightarrow> bool \<Rightarrow> py_error + (f64 list \<times> f64 list)" where
  "calc_mixing p0 p1 l_log =
     (case p0 of (q0, dD0) \<Rightarrow>
      case p1 of (q1, dD1) \<Rightarrow>
        let q = mixing_samples q0 q1 l_log
        in case py_div (dD1 * q1 - dD0 * q0) (q1 - q0) of
             Inl e \<Rightarrow> Inl e
           | Inr dDf \<Rightarrow>
               Inr (q, map (\<lambda>qi. np_add (np_mul (Fin (q0 * (dD0 - dDf)))
                                               (np_div (Fin 1) qi))
                                       (Fin dDf)) q))"


section \<open>Plot adapters\<close>

text \<open>
  The plot axis belongs to the caller. Here it is the list of the line series drawn on
  it so far; \<^verbatim>\<open>ax.plot(x, y, c, ls, lw, label)\<close> appends one series and hands it back
  as the line handle.
\<close>

record 'a line =
  xdata :: "'a list"
  ydata :: "'a list"
  color :: string
  linestyle :: "nat \<times> nat list"
  linewidth :: real
  label :: string

type_synonym 'a axis = "'a line list"

definition ax_plot ::
  "'a axis \<Rightarrow> 'a list \<Rightarrow> 'a list \<Rightarrow> string \<Rightarrow> nat \<times> nat list \<Rightarrow> real \<Rightarrow> string \<Rightarrow>
   'a line \<times> 'a axis" where
  "ax_plot ax x y c ls lw lbl =
     (let h = \<lparr>xdata = x, ydata = y, color = c, linestyle = ls, linewidth = lw,
                label = lbl\<rparr>
      in (h, ax @ [h]))"

text \<open>
  The loop \<^verbatim>\<open>for x in xs: ...; cs, = ax.plot(...)\<close> shared by the three adapters. The
  state is the axis and the local variable \<^verbatim>\<open>cs\<close>, unbound (\<open>None\<close>) until the first
  pass assigns it. A pass that raises ends the loop with the axis as drawn so far.
\<close>

fun plot_loop ::
  "('x \<Rightarrow> 'a axis \<Rightarrow> py_error + ('a line \<times> 'a axis)) \<Rightarrow> 'x list \<Rightarrow>
   'a axis \<Rightarrow> 'a line option \<Rightarrow> (py_error + 'a line option) \<times> 'a axis" where
  "plot_loop body [] ax cs = (Inr cs, ax)"
| "plot_loop body (x # xs) ax cs =
     (case body x ax of
        Inl e \<Rightarrow> (Inl e, ax)
      | Inr (h, ax') \<Rightarrow> plot_loop body xs ax' (Some h))"

text \<open>\<^verbatim>\<open>return cs\<close>: reading a local variable that was never assigned raises.\<close>

definition return_local ::
  "(py_error + 'a line option) \<times> 'a axis \<Rightarrow> (py_error + 'a line) \<times> 'a axis" where
  "return_local r =
     (case r of
        (Inl e, ax) \<Rightarrow> (Inl e, ax)
      | (Inr None, ax) \<Rightarrow> (Inl UnboundLocalError, ax)
      | (Inr (Some h), ax) \<Rightarrow> (Inr h, ax))"

type_synonym 'a curves = "'a list \<times> 'a list \<times> 'a list \<times> 'a list \<times> 'a list"

type_synonym 'a generator =
  "pyval \<Rightarrow> pyval \<Rightarrow> pyval \<Rightarrow> pyval \<Rightarrow> pyval \<Rightarrow> py_error + 'a curves"

text \<open>
  \<^verbatim>\<open>plot_rayleigh(ax, rl_list = None, lwf = 1, t = None, rh = None, dD0 = None,
  c = 'dimgray')\<close>, each entry of \<^verbatim>\<open>rl_list\<close> a triple \<^verbatim>\<open>[T0, RH0, dD0]\<close>.
\<close>

definition plot_rayleigh ::
  "'a generator \<Rightarrow> 'a axis \<Rightarrow> (pyval \<times> pyval \<times> pyval) list option \<Rightarrow> real \<Rightarrow>
   pyval \<Rightarrow> pyval \<Rightarrow> pyval \<Rightarrow> string \<Rightarrow> (py_error + 'a line) \<times> 'a axis" where
  "plot_rayleigh RayleighTropen ax rl_list lwf t rh dD0 c =
     (let rl_list' =
        (case rl_list of
           None \<Rightarrow>
             if t = PyNone \<and> rh = PyNone \<and> dD0 = PyNone
             then [(PyNum 30, PyNum 90, PyNum (- 80))]
             else [(t, rh, dD0)]
         | Some l \<Rightarrow> l)
      in return_local
           (plot_loop
              (\<lambda>rl ax.
                 case rl of (rl0, rl1, rl2) \<Rightarrow>
                 case calc_rayleigh RayleighTropen rl0 rl1 rl2 None (Some (PyNum (- 10))) of
                   Inl e \<Rightarrow> Inl e
                 | Inr (h2o_rl, dD_rl, d18_rl, t_rl, p_rl) \<Rightarrow>
                     Inr (ax_plot ax h2o_rl dD_rl c (0, [1, 1]) (4.5 * lwf) ''Rayleigh''))
              rl_list' ax None))"

text \<open>\<^verbatim>\<open>xs[:lx]\<close>: a negative \<open>lx\<close> counts from the end.\<close>

definition slice_to :: "'a list \<Rightarrow> int \<Rightarrow> 'a list" where
  "slice_to xs lx =
     (if 0 \<le> lx then take (nat lx) xs else take (length xs - nat (- lx)) xs)"

text \<open>\<^verbatim>\<open>lxl[sx]\<close> for an index \<open>sx\<close> that \<^verbatim>\<open>enumerate\<close> supplies, so never negative.\<close>

definition index_at :: "'a list \<Rightarrow> nat \<Rightarrow> py_error + 'a" where
  "index_at xs i = (if i < length xs then Inr (xs ! i) else Inl IndexError)"

text \<open>
  \<^verbatim>\<open>plot_superrayleigh(ax, srl_list = None, lwf = 1, c = 'gray', lxl = None)\<close>, each
  entry of \<^verbatim>\<open>srl_list\<close> a quadruple \<^verbatim>\<open>[T0, RH0, dD0, alpha_fac]\<close>.
\<close>

definition plot_superrayleigh ::
  "'a generator \<Rightarrow> 'a axis \<Rightarrow> (pyval \<times> pyval \<times> pyval \<times> pyval) list option \<Rightarrow> real \<Rightarrow>
   string \<Rightarrow> int list option \<Rightarrow> (py_error + 'a line) \<times> 'a axis" where
  "plot_superrayleigh RayleighTropen ax srl_list lwf c lxl =
     (let srl_list' =
        (case srl_list of
           None \<Rightarrow> [(PyNum 13, PyNum 80, PyNum (- 175), PyNum 1.5),
                    (PyNum 22, PyNum 100, PyNum (- 110), PyNum 1.3)]
         | Some l \<Rightarrow> l)
      in return_local
           (plot_loop
              (\<lambda>entry ax.
                 case entry of (sx, srl) \<Rightarrow>
                 case (case lxl of
                         None \<Rightarrow> Inr (if sx = 0 then 100 else 130)
                       | Some l \<Rightarrow> index_at l sx) of
                   Inl e \<Rightarrow> Inl e
                 | Inr lx \<Rightarrow>
                     (case srl of (srl0, srl1, srl2, srl3) \<Rightarrow>
                      case calc_rayleigh RayleighTropen srl0 srl1 srl2 (Some srl3)
                             (Some (PyNum (- 10))) of
                        Inl e \<Rightarrow> Inl e
                      | Inr (h2o_sr, dD_sr, _, _, _) \<Rightarrow>
                          Inr (ax_plot ax (slice_to h2o_sr lx) (slice_to dD_sr lx) c
                                 (0, [3, 1, 1, 1, 1, 1]) (4.5 * lwf) ''Super-Rayleigh'')))
              (zip [0..<length srl_list'] srl_list') ax None))"

text \<open>
  \<^verbatim>\<open>plot_mixing(ax, mx_list = None, lwf = 1, c = 'gray')\<close>, each entry of
  \<^verbatim>\<open>mx_list\<close> a pair of endpoints \<^verbatim>\<open>[[q1, dD1], [q2, dD2]]\<close>.
\<close>

definition plot_mixing ::
  "f64 axis \<Rightarrow> ((real \<times> real) \<times> (real \<times> real)) list option \<Rightarrow> real \<Rightarrow> string \<Rightarrow>
   (py_error + f64 line) \<times> f64 axis" where
  "plot_mixing ax mx_list lwf c =
     (let mx_list' =
        (case mx_list of
           None \<Rightarrow> [((50, - 700), (15300, - 150)), ((1000, - 450), (22000, - 120))]
         | Some l \<Rightarrow> l)
      in return_local
           (plot_loop
              (\<lambda>mx ax.
                 case calc_mixing (fst mx) (snd mx) True of
                   Inl e \<Rightarrow> Inl e
                 | Inr (h2o_mx, dD_mx) \<Rightarrow>
                     Inr (ax_plot ax h2o_mx dD_mx c (0, [3, 1]) (4 * lwf) ''mixing''))
              mx_list' ax None))"

section \<open>Properties of float64 rounding\<close>

lemma rne_of_int [simp]: "rne (of_int k) = k"
  by (simp add: rne_def)

lemma rne_ge_floor: "\<lfloor>x\<rfloor> \<le> rne x"
  by (simp add: rne_def Let_def)

lemma rne_le_ceiling: "rne x \<le> \<lfloor>x\<rfloor> + 1"
  by (simp add: rne_def Let_def)

lemma rne_le_int: "x \<le> of_int k \<Longrightarrow> rne x \<le> k"
proof -
  assume le: "x \<le> of_int k"
  show ?thesis
  proof (cases "x = of_int k")
    case True
    then show ?thesis by simp
  next
    case False
    with le have "x < of_int k" by simp
    then have "\<lfloor>x\<rfloor> < k" by (simp add: floor_less_iff)
    with rne_le_ceiling [of x] show ?thesis by linarith
  qed
qed

lemma rne_ge_int: "of_int k \<le> x \<Longrightarrow> k \<le> rne x"
proof -
  assume "of_int k \<le> x"
  then have "k \<le> \<lfloor>x\<rfloor>" by (simp add: le_floor_iff)
  with rne_ge_floor [of x] show ?thesis by linarith
qed

lemma rne_mono: "x \<le> y \<Longrightarrow> rne x \<le> rne y"
proof -
  assume xy: "x \<le> y"
  show ?thesis
  proof (cases "\<lfloor>x\<rfloor> = \<lfloor>y\<rfloor>")
    case True
    with xy show ?thesis by (simp add: rne_def Let_def)
  next
    case False
    with xy have "\<lfloor>x\<rfloor> + 1 \<le> \<lfloor>y\<rfloor>"
      using floor_mono [of x y] by linarith
    with rne_le_ceiling [of x] rne_ge_floor [of y] show ?thesis by linarith
  qed
qed

lemma floor_minus_nonint:
  assumes "x \<noteq> of_int \<lfloor>x\<rfloor>"
  shows "\<lfloor>- x\<rfloor> = - \<lfloor>x\<rfloor> - 1"
proof (rule floor_unique)
  have "x < of_int \<lfloor>x\<rfloor> + 1" by linarith
  then show "of_int (- \<lfloor>x\<rfloor> - 1) \<le> - x" by simp
  have "of_int \<lfloor>x\<rfloor> < x"
    by (rule order_neq_le_trans [OF assms [symmetric] of_int_floor_le])
  then show "- x < of_int (- \<lfloor>x\<rfloor> - 1) + 1" by simp
qed

lemma rne_minus: "rne (- x) = - rne x"
proof (cases "x = of_int \<lfloor>x\<rfloor>")
  case True
  then have "- x = of_int (- \<lfloor>x\<rfloor>)" by simp
  then have "rne (- x) = - \<lfloor>x\<rfloor>" by (simp only: rne_of_int)
  moreover from True have "rne x = \<lfloor>x\<rfloor>" by (metis rne_of_int)
  ultimately show ?thesis by simp
next
  case False
  note fl = floor_minus_nonint [OF False]
  define f where "f = \<lfloor>x\<rfloor>"
  define d where "d = x - of_int f"
  have d': "- x - of_int (- f - 1) = 1 - d" by (simp add: d_def)
  have r1: "rne x = (if d < 1 / 2 then f else if 1 / 2 < d then f + 1
                     else if even f then f else f + 1)"
    by (simp add: rne_def Let_def f_def d_def)
  have r2: "rne (- x) = (if 1 - d < 1 / 2 then - f - 1 else if 1 / 2 < 1 - d then - f
                     else if even (- f - 1) then - f - 1 else - f)"
    unfolding rne_def Let_def fl f_def [symmetric] d' by simp
  show ?thesis unfolding r1 r2 by auto
qed

lemma ulp_pos: "0 < ulp x"
  by (simp add: ulp_def)

lemma binade_minus: "binade (- x) = binade x"
  by (simp add: binade_def)

lemma ulp_minus: "ulp (- x) = ulp x"
  by (simp add: ulp_def binade_minus)

lemma round64_minus: "round64 (- x) = - round64 x"
  by (simp add: round64_def ulp_minus rne_minus)

lemma rne_zero [simp]: "rne 0 = 0"
  by (simp add: rne_def)

lemma round64_zero [simp]: "round64 0 = 0"
  by (simp add: round64_def)

lemma binade_ge: "- 1022 \<le> binade x"
  by (simp add: binade_def)

lemma binade_upper:
  assumes "0 < x"
  shows "x < 2 powr of_int (binade x + 1)"
proof -
  have "log 2 x < of_int (\<lfloor>log 2 x\<rfloor> + 1)" by linarith
  also have "\<dots> \<le> of_int (binade x + 1)"
    using assms by (simp add: binade_def)
  finally have "log 2 x < of_int (binade x + 1)" .
  then show ?thesis
    using assms by (simp add: log_less_iff)
qed

lemma binade_lower:
  assumes "0 < x" "- 1022 < binade x"
  shows "2 powr of_int (binade x) \<le> x"
proof -
  from assms have "binade x = \<lfloor>log 2 x\<rfloor>"
    by (simp add: binade_def max_def split: if_splits)
  then have "of_int (binade x) \<le> log 2 x" by simp
  then show ?thesis
    using assms(1) by (simp add: le_log_iff)
qed

lemma binade_mono:
  assumes "0 < x" "x \<le> y"
  shows "binade x \<le> binade y"
proof -
  from assms have "log 2 x \<le> log 2 y" by simp
  then have "\<lfloor>log 2 x\<rfloor> \<le> \<lfloor>log 2 y\<rfloor>" by (rule floor_mono)
  then have "max \<lfloor>log 2 x\<rfloor> (- 1022) \<le> max \<lfloor>log 2 y\<rfloor> (- 1022)"
    by (rule max.mono) simp
  moreover from assms have "\<bar>x\<bar> = x" "\<bar>y\<bar> = y" by simp_all
  ultimately show ?thesis by (simp only: binade_def)
qed

lemma binade_eq:
  assumes "2 powr of_int e \<le> x" "x < 2 powr of_int (e + 1)" "- 1022 \<le> e"
  shows "binade x = e"
proof -
  have pos: "0 < x"
    using assms(1) by (rule less_le_trans [rotated]) simp
  then have "\<lfloor>log 2 x\<rfloor> = e"
    using assms(1,2) by (simp add: floor_log_eq_powr_iff)
  with assms(3) pos show ?thesis by (simp add: binade_def)
qed

lemma ulp_scale: "(2::real) powr of_int (binade x + k) = of_int (2 ^ 52) * 2 powr of_int k * ulp x"
proof -
  have "(2::real) powr of_int (binade x + k) = 2 powr (52 + of_int k + of_int (binade x - 52))"
    by (simp add: algebra_simps)
  also have "\<dots> = 2 powr 52 * 2 powr of_int k * 2 powr of_int (binade x - 52)"
    by (simp only: powr_add)
  finally show ?thesis by (simp add: ulp_def)
qed

lemma round64_nonneg:
  assumes "0 \<le> x"
  shows "0 \<le> round64 x"
proof -
  have "of_int 0 \<le> x / ulp x"
    using assms ulp_pos [of x] by simp
  then have "0 \<le> rne (x / ulp x)" by (rule rne_ge_int)
  then show ?thesis
    using ulp_pos [of x] by (simp add: round64_def)
qed

lemma round64_upper:
  assumes "0 < x"
  shows "round64 x \<le> 2 powr of_int (binade x + 1)"
proof -
  have "x < 2 powr of_int (binade x + 1)"
    using assms by (rule binade_upper)
  also have "\<dots> = of_int (2 ^ 53) * ulp x"
    using ulp_scale [of x 1] by simp
  finally have "x / ulp x \<le> of_int (2 ^ 53)"
    using ulp_pos [of x] by (simp add: pos_divide_le_eq)
  then have "rne (x / ulp x) \<le> 2 ^ 53" by (rule rne_le_int)
  then have "of_int (rne (x / ulp x)) * ulp x \<le> of_int (2 ^ 53) * ulp x"
    using ulp_pos [of x] by (simp only: mult_le_cancel_right_pos of_int_le_iff)
  then show ?thesis
    using ulp_scale [of x 1] by (simp add: round64_def)
qed

lemma round64_lower:
  assumes "2 powr of_int (binade x) \<le> x"
  shows "2 powr of_int (binade x) \<le> round64 x"
proof -
  have "of_int (2 ^ 52) * ulp x \<le> x"
    using assms ulp_scale [of x 0] by simp
  then have "of_int (2 ^ 52) \<le> x / ulp x"
    using ulp_pos [of x] by (simp add: pos_le_divide_eq)
  then have "2 ^ 52 \<le> rne (x / ulp x)" by (rule rne_ge_int)
  then have "of_int (2 ^ 52) * ulp x \<le> of_int (rne (x / ulp x)) * ulp x"
    using ulp_pos [of x] by (simp only: mult_le_cancel_right_pos of_int_le_iff)
  then show ?thesis
    using ulp_scale [of x 0] by (simp add: round64_def)
qed

lemma round64_mono_pos:
  assumes "0 < x" "x \<le> y"
  shows "round64 x \<le> round64 y"
proof (cases "binade x = binade y")
  case True
  then have u: "ulp x = ulp y" by (simp add: ulp_def)
  have "x / ulp y \<le> y / ulp y"
    using assms(2) ulp_pos [of y] by (simp add: divide_right_mono)
  then have "rne (x / ulp y) \<le> rne (y / ulp y)" by (rule rne_mono)
  then show ?thesis
    using ulp_pos [of y] by (simp add: round64_def u mult_right_mono)
next
  case False
  with binade_mono [OF assms] have lt: "binade x + 1 \<le> binade y" by simp
  from assms have y: "0 < y" by simp
  from lt binade_ge [of x] have "- 1022 < binade y" by linarith
  with y have "2 powr of_int (binade y) \<le> y" by (rule binade_lower)
  then have "2 powr of_int (binade y) \<le> round64 y" by (rule round64_lower)
  moreover have "round64 x \<le> 2 powr of_int (binade x + 1)"
    using assms(1) by (rule round64_upper)
  moreover have "(2::real) powr of_int (binade x + 1) \<le> 2 powr of_int (binade y)"
    using lt by simp
  ultimately show ?thesis by linarith
qed

lemma round64_mono:
  assumes "x \<le> y"
  shows "round64 x \<le> round64 y"
proof -
  consider "0 < x" | "x \<le> 0" "0 \<le> y" | "y < 0" by linarith
  then show ?thesis
  proof cases
    case 1
    then show ?thesis using assms by (rule round64_mono_pos)
  next
    case 2
    have "round64 x \<le> 0"
      using round64_nonneg [of "- x"] 2(1) by (simp add: round64_minus)
    moreover have "0 \<le> round64 y" using 2(2) by (rule round64_nonneg)
    ultimately show ?thesis by simp
  next
    case 3
    then have "0 < - y" "- y \<le> - x" using assms by simp_all
    then have "round64 (- y) \<le> round64 (- x)" by (rule round64_mono_pos)
    then show ?thesis by (simp add: round64_minus)
  qed
qed

lemma round64_grid:
  assumes m: "\<bar>m\<bar> < 2 ^ 53" and k: "- 1074 \<le> k"
  shows "round64 (of_int m * 2 powr of_int k) = of_int m * 2 powr of_int k"
proof (cases "m = 0")
  case True
  then show ?thesis by simp
next
  case False
  define x :: real where "x = of_int m * 2 powr of_int k"
  have pos: "0 < \<bar>x\<bar>" using False by (simp add: x_def)
  have lt: "real_of_int \<bar>m\<bar> < real_of_int (2 ^ 53)"
    using m by (simp only: of_int_less_iff)
  have "\<bar>x\<bar> = of_int \<bar>m\<bar> * 2 powr of_int k"
    by (simp add: x_def abs_mult)
  also have "\<dots> < of_int (2 ^ 53) * 2 powr of_int k"
    using lt by (rule mult_strict_right_mono) simp
  also have "\<dots> = 2 powr of_int (53 + k)"
    by (simp add: powr_add)
  finally have "log 2 \<bar>x\<bar> < of_int (53 + k)"
    using pos by (simp only: log_less_iff)
  then have "\<lfloor>log 2 \<bar>x\<bar>\<rfloor> < 53 + k" by (simp only: floor_less_iff)
  with k have "binade x \<le> 52 + k" by (simp add: binade_def)
  then have "0 \<le> k - (binade x - 52)" by simp
  then obtain n where "k - (binade x - 52) = int n"
    by (rule nonneg_int_cases)
  then have n: "k = (binade x - 52) + int n" by simp
  define u where "u = ulp x"
  have u: "0 < u" by (simp add: u_def ulp_pos)
  have "(2::real) powr of_int k = 2 powr (of_int (binade x - 52) + of_int (int n))"
    by (subst n) simp
  also have "\<dots> = u * 2 ^ n"
    by (simp only: powr_add ulp_def u_def) (simp add: powr_realpow)
  finally have k2: "(2::real) powr of_int k = u * 2 ^ n" .
  have x2: "x = of_int (m * 2 ^ n) * u"
    by (simp add: x_def k2)
  then have "x / u = of_int (m * 2 ^ n)"
    using u by simp
  then have "rne (x / u) = m * 2 ^ n" by (simp only: rne_of_int)
  then have "round64 x = of_int (m * 2 ^ n) * u"
    by (simp only: round64_def u_def)
  with x2 have "round64 x = x" by simp
  then show ?thesis by (simp only: x_def)
qed

lemma round64_int:
  assumes "\<bar>m\<bar> < 2 ^ 53"
  shows "round64 (of_int m) = of_int m"
  using round64_grid [OF assms, of 0] by simp

lemma round64_pow2:
  assumes "- 1074 \<le> k"
  shows "round64 (2 powr of_int k) = 2 powr of_int k"
  using round64_grid [of 1 k] assms by simp

lemma rne_small:
  assumes "0 \<le> y" "y \<le> 1 / 2"
  shows "rne y = 0"
proof -
  from assms have "\<lfloor>y\<rfloor> = 0" by (simp add: floor_eq_iff)
  with assms show ?thesis by (simp add: rne_def)
qed

lemma round64_tiny_pos:
  assumes "0 \<le> x" "x \<le> 2 powr (- 1075)"
  shows "round64 x = 0"
proof (cases "x = 0")
  case True
  then show ?thesis by simp
next
  case False
  with assms have pos: "0 < x" by simp
  have "x < 2 powr (- 1022)"
    using assms(2) by (rule le_less_trans) simp
  then have "log 2 x < - 1022"
    using pos by (simp add: log_less_iff)
  then have "\<lfloor>log 2 x\<rfloor> < - 1022" by (simp add: floor_less_iff)
  then have "binade x = - 1022" using pos by (simp add: binade_def)
  then have u: "ulp x = 2 powr (- 1074)" by (simp add: ulp_def)
  have "x / 2 powr (- 1074) \<le> 2 powr (- 1075) / 2 powr (- 1074)"
    using assms(2) by (simp add: divide_right_mono)
  also have "\<dots> = 2 powr (- 1)" by (simp only: powr_diff [symmetric]) simp
  also have "\<dots> = 1 / 2" by (simp add: powr_minus_divide)
  finally have "x / ulp x \<le> 1 / 2" by (simp only: u)
  moreover have "0 \<le> x / ulp x" using pos ulp_pos [of x] by simp
  ultimately have "rne (x / ulp x) = 0" by (rule rne_small [rotated])
  then show ?thesis by (simp add: round64_def)
qed

lemma round64_pos:
  assumes "2 powr (- 1074) \<le> x"
  shows "0 < round64 x"
proof -
  have "2 powr (- 1074) \<le> round64 x"
    using round64_mono [OF assms] round64_pow2 [of "- 1074"] by simp
  then show ?thesis by (rule less_le_trans [rotated]) simp
qed

lemma to_f64_between:
  assumes lo: "round64 lo = lo" "- (2 ^ 1024) < lo"
      and hi: "round64 hi = hi" "hi < 2 ^ 1024"
      and x: "lo \<le> x" "x \<le> hi"
  shows "to_f64 x = Fin (round64 x) \<and> lo \<le> round64 x \<and> round64 x \<le> hi"
proof -
  have a: "lo \<le> round64 x"
    using round64_mono [OF x(1)] lo(1) by simp
  have b: "round64 x \<le> hi"
    using round64_mono [OF x(2)] hi(1) by simp
  from a b lo(2) hi(2) show ?thesis
    by (simp add: to_f64_def Let_def)
qed

lemma to_f64_overflow:
  assumes "2 ^ 1024 \<le> x"
  shows "to_f64 x = PInf"
proof -
  have "round64 (2 powr of_int 1024) = 2 powr of_int 1024"
    by (rule round64_pow2) simp
  then have "round64 (2 ^ 1024) = 2 ^ 1024" by simp
  with round64_mono [OF assms] have "2 ^ 1024 \<le> round64 x" by simp
  then show ?thesis by (simp add: to_f64_def Let_def)
qed

lemma to_f64_zero [simp]: "to_f64 0 = Fin 0"
  by (simp add: to_f64_def)

lemma round64_numeral_int:
  assumes "\<bar>m\<bar> < 2 ^ 53"
  shows "to_f64 (of_int m) = Fin (of_int m)"
proof -
  have r: "round64 (of_int m) = of_int m" using assms by (rule round64_int)
  have "\<bar>real_of_int m\<bar> < 2 ^ 53"
    using assms by (metis of_int_abs of_int_less_iff of_int_numeral of_int_power)
  then have "real_of_int m < 2 ^ 1024" "- (2 ^ 1024) < real_of_int m" by simp_all
  then show ?thesis by (simp add: to_f64_def r)
qed

lemma exp_one_upper: "exp 1 \<le> (276 / 100 :: real)"
proof -
  have "exp (1 / 32 :: real) \<le> 1 + 1 / 32 + (1 / 32)\<^sup>2"
    by (rule exp_bound) simp_all
  then have b: "exp (1 / 32 :: real) \<le> 1057 / 1024"
    by (simp add: power2_eq_square)
  have "exp (1::real) = exp (real 32 * (1 / 32))" by simp
  also have "\<dots> = exp (1 / 32) ^ 32" by (rule exp_of_nat_mult)
  also have "\<dots> \<le> (1057 / 1024) ^ 32"
    using b by (rule power_mono) simp
  also have "\<dots> \<le> (276 / 100 :: real)" by (simp add: power_divide)
  finally show ?thesis .
qed

lemma exp_nat_upper: "exp (real n) \<le> (276 / 100) ^ n"
proof -
  have "exp (real n) = exp (real n * 1)" by simp
  also have "\<dots> = exp 1 ^ n" by (rule exp_of_nat_mult)
  also have "\<dots> \<le> (276 / 100) ^ n"
    using exp_one_upper by (rule power_mono) simp
  finally show ?thesis .
qed

lemma exp_43: "exp (43::real) \<le> 2 ^ 63"
proof -
  have "exp (real 43) \<le> (276 / 100) ^ 43" by (rule exp_nat_upper)
  also have "\<dots> \<le> (2::real) ^ 63" by (simp add: power_divide)
  finally show ?thesis by simp
qed

lemma exp_4: "exp (4::real) \<le> 2 ^ 6"
proof -
  have "exp (real 4) \<le> (276 / 100) ^ 4" by (rule exp_nat_upper)
  also have "\<dots> \<le> (2::real) ^ 6" by (simp add: power_divide)
  finally show ?thesis by simp
qed

lemma exp_692: "exp (692::real) \<le> 2 ^ 1023"
proof -
  have "exp (692::real) = exp (real 16 * 43 + 4)" by simp
  also have "\<dots> = exp 43 ^ 16 * exp 4"
    by (simp only: exp_add exp_of_nat_mult)
  also have "\<dots> \<le> (2 ^ 63) ^ 16 * 2 ^ 6"
    by (intro mult_mono power_mono exp_43 exp_4) simp_all
  also have "\<dots> = (2::real) ^ 1014"
    by (simp only: power_mult [symmetric] power_add [symmetric]) simp
  also have "\<dots> \<le> 2 ^ 1023" by (rule power_increasing) simp_all
  finally show ?thesis .
qed

lemma to_f64_int_bounds:
  assumes "of_int l \<le> x" "x \<le> of_int h" "\<bar>l\<bar> < 2 ^ 53" "\<bar>h\<bar> < 2 ^ 53"
  shows "\<exists>r. to_f64 x = Fin r \<and> of_int l \<le> r \<and> r \<le> of_int h"
proof -
  have l: "round64 (of_int l) = of_int l" using assms(3) by (rule round64_int)
  have h: "round64 (of_int h) = of_int h" using assms(4) by (rule round64_int)
  have "real_of_int \<bar>l\<bar> < real_of_int (2 ^ 53)" "real_of_int \<bar>h\<bar> < real_of_int (2 ^ 53)"
    using assms(3,4) by (simp_all only: of_int_less_iff)
  then have "- (2 ^ 1024) < real_of_int l" "real_of_int h < 2 ^ 1024"
    by simp_all
  with l h assms(1,2) show ?thesis
    using to_f64_between [of "of_int l" "of_int h" x] by simp
qed

lemma to_f64_pow2_bounds:
  assumes "2 powr of_int l \<le> x" "x \<le> 2 powr of_int h" "- 1074 \<le> l" "h \<le> 1023"
  shows "\<exists>r. to_f64 x = Fin r \<and> 2 powr of_int l \<le> r \<and> r \<le> 2 powr of_int h"
proof -
  have l: "round64 (2 powr of_int l) = 2 powr of_int l" using assms(3) by (rule round64_pow2)
  from assms have "l \<le> h"
    by (metis order_trans powr_le_cancel_iff of_int_le_iff one_less_numeral_iff semiring_norm(76))
  with assms(3) have "- 1074 \<le> h" by simp
  then have h: "round64 (2 powr of_int h) = 2 powr of_int h" by (rule round64_pow2)
  have "(2::real) powr of_int h \<le> 2 powr of_int 1023"
    using assms(4) by (intro powr_mono) simp_all
  also have "\<dots> = 2 ^ 1023" by simp
  also have "\<dots> < 2 ^ 1024" by simp
  finally have h2: "(2::real) powr of_int h < 2 ^ 1024" .
  have "- (2 ^ 1024) < (0::real)" by simp
  also have "0 < (2::real) powr of_int l" by simp
  finally have l2: "- (2 ^ 1024) < (2::real) powr of_int l" .
  show ?thesis
    using to_f64_between [OF l l2 h h2 assms(1,2)] by simp
qed

lemma lit_76: "\<exists>c. lit 76.248 = Fin c \<and> 76 \<le> c \<and> c \<le> 77"
  using to_f64_int_bounds [of 76 "76.248" 77] by (simp add: lit_def)

lemma lit_005: "\<exists>c. lit 0.05261 = Fin c \<and> 0 \<le> c \<and> c \<le> 1"
  using to_f64_int_bounds [of 0 "0.05261" 1] by (simp add: lit_def)

lemma lit_273: "\<exists>c. lit 273.15 = Fin c \<and> 273 \<le> c \<and> c \<le> 274"
  using to_f64_int_bounds [of 273 "273.15" 274] by (simp add: lit_def)

section \<open>Properties of the equilibrium model\<close>

lemma val_kind_of [simp]: "val (kind_of a b v) = v"
  by (simp add: kind_of_def)

lemma aeq_numpy: "aeq (Np (Fin x)) = Inr (aeq_formula x)"
  by (simp add: aeq_def num_pow2_def num_div_def num_add_def num_sub_def aeq_formula_def)

lemma aeq_python:
  "aeq (Py (Fin x)) =
     (case to_f64 (x * x) of
        Fin s \<Rightarrow> if s = 0 then Inl ZeroDivisionError else Inr (aeq_formula x)
      | _ \<Rightarrow> Inl OverflowError)"
proof (cases "to_f64 (x * x)")
  case (Fin s)
  show ?thesis
  proof (cases "s = 0")
    case True
    with Fin show ?thesis
      by (simp add: aeq_def num_pow2_def num_div_def)
  next
    case False
    with Fin have "x \<noteq> 0" by auto
    with Fin False show ?thesis
      by (simp add: aeq_def num_pow2_def num_div_def num_add_def num_sub_def aeq_formula_def)
  qed
qed (simp_all add: aeq_def num_pow2_def)

lemma exp_minus_13: "2 powr (- 20) \<le> exp (- 13 :: real)"
proof -
  have "exp (real 13) \<le> (276 / 100) ^ 13" by (rule exp_nat_upper)
  also have "\<dots> \<le> (2::real) ^ 20" by (simp add: power_divide)
  finally have "exp (13::real) \<le> 2 ^ 20" by simp
  then have "1 / (2::real) ^ 20 \<le> 1 / exp 13"
    by (intro divide_left_mono) simp_all
  then show ?thesis
    by (simp add: exp_minus powr_minus_divide inverse_eq_divide)
qed

lemma square_in_range:
  assumes "6 \<le> x" "x \<le> 2 ^ 500"
  shows "\<exists>s. to_f64 (x * x) = Fin s \<and> 36 \<le> s"
proof -
  have lo: "round64 36 = 36" using round64_int [of 36] by simp
  have hi: "round64 (2 powr of_int 1000) = 2 powr of_int 1000"
    by (rule round64_pow2) simp
  have "(36::real) = 6 * 6" by simp
  also have "\<dots> \<le> x * x" using assms(1) by (intro mult_mono) simp_all
  finally have a: "36 \<le> x * x" .
  have "x * x \<le> 2 ^ 500 * 2 ^ 500"
    using assms by (intro mult_mono) simp_all
  also have "\<dots> = (2::real) powr of_int 1000"
    by (simp only: power_add [symmetric]) simp
  finally have b: "x * x \<le> 2 powr of_int 1000" .
  have c: "(2::real) powr of_int 1000 < 2 ^ 1024" by simp
  show ?thesis
    using to_f64_between [OF lo _ hi c a b] by simp
qed

lemma formula_positive:
  assumes lo: "6 \<le> x" and hi: "x \<le> 2 ^ 500"
  shows "\<exists>a. aeq_formula x = Fin a \<and> 0 < a"
proof -
  obtain s where s: "to_f64 (x * x) = Fin s" "36 \<le> s"
    using square_in_range [OF lo hi] by blast
  obtain c where c: "lit 76.248 = Fin c" "76 \<le> c" "c \<le> 77"
    using lit_76 by blast
  obtain c2 where c2: "lit 0.05261 = Fin c2" "0 \<le> c2" "c2 \<le> 1"
    using lit_005 by blast
  have "24844 / s \<le> 24844 / 36"
    using s(2) by (intro divide_left_mono) simp_all
  then have "of_int 0 \<le> 24844 / s" "24844 / s \<le> of_int 691"
    using s(2) by simp_all
  then obtain a1 where a1: "to_f64 (24844 / s) = Fin a1" "0 \<le> a1" "a1 \<le> 691"
    using to_f64_int_bounds [of 0 "24844 / s" 691] by auto
  have "c / x \<le> 77 / 6"
    using c(2,3) lo by (intro frac_le) simp_all
  also have "\<dots> \<le> 13" by simp
  finally have "c / x \<le> of_int 13" by simp
  moreover have "of_int 0 \<le> c / x"
    using c(2) lo by simp
  ultimately have "of_int 0 \<le> c / x" "c / x \<le> of_int 13" by simp_all
  then obtain b1 where b1: "to_f64 (c / x) = Fin b1" "0 \<le> b1" "b1 \<le> 13"
    using to_f64_int_bounds [of 0 "c / x" 13] by auto
  have "of_int (- 13) \<le> a1 - b1" "a1 - b1 \<le> of_int 691"
    using a1 b1 by simp_all
  then obtain d where d: "to_f64 (a1 - b1) = Fin d" "- 13 \<le> d" "d \<le> 691"
    using to_f64_int_bounds [of "- 13" "a1 - b1" 691] by auto
  have "of_int (- 13) \<le> d + c2" "d + c2 \<le> of_int 692"
    using d c2 by simp_all
  then obtain e where e: "to_f64 (d + c2) = Fin e" "- 13 \<le> e" "e \<le> 692"
    using to_f64_int_bounds [of "- 13" "d + c2" 692] by auto
  have "2 powr of_int (- 20) \<le> exp (- 13 :: real)"
    using exp_minus_13 by simp
  also have "\<dots> \<le> exp e" using e(2) by simp
  finally have e_lo: "2 powr of_int (- 20) \<le> exp e" .
  have "exp e \<le> exp 692" using e(3) by simp
  also have "\<dots> \<le> 2 ^ 1023" by (rule exp_692)
  also have "\<dots> = (2::real) powr of_int 1023" by simp
  finally have e_hi: "exp e \<le> 2 powr of_int 1023" .
  obtain r where r: "to_f64 (exp e) = Fin r" "2 powr of_int (- 20) \<le> r"
      "r \<le> 2 powr of_int 1023"
    using to_f64_pow2_bounds [OF e_lo e_hi] by auto
  have rpos: "0 < r"
    using r(2) by (rule less_le_trans [rotated]) simp
  have "1 / r \<le> 1 / 2 powr of_int (- 20)"
    using r(2) rpos by (intro divide_left_mono mult_pos_pos) simp_all
  also have "\<dots> = 2 powr of_int 20"
    by (simp add: powr_minus_divide)
  finally have q_hi: "1 / r \<le> 2 powr of_int 20" .
  have "1 / 2 powr of_int 1023 \<le> 1 / r"
    using r(3) rpos by (intro divide_left_mono) simp_all
  moreover have "1 / 2 powr of_int 1023 = (2::real) powr of_int (- 1023)"
    by (simp add: powr_minus_divide)
  ultimately have q_lo: "2 powr of_int (- 1023) \<le> 1 / r" by simp
  obtain a where a: "to_f64 (1 / r) = Fin a" "2 powr of_int (- 1023) \<le> a"
    using to_f64_pow2_bounds [OF q_lo q_hi] by auto
  have apos: "0 < a"
    using a(2) by (rule less_le_trans [rotated]) simp
  have "aeq_formula x = Fin a"
    using s c c2 a1 b1 d e r a rpos lo
    by (simp add: aeq_formula_def fl_sub_def)
  with apos show ?thesis by blast
qed

lemma exp_nat_lower: "2 ^ n \<le> exp (real n)"
proof -
  have "(2::real) \<le> exp 1"
    using exp_ge_add_one_self [of 1] by simp
  then have "(2::real) ^ n \<le> exp 1 ^ n"
    by (intro power_mono) simp_all
  also have "\<dots> = exp (real n)"
    using exp_of_nat_mult [of n "1::real"] by simp
  finally show ?thesis .
qed

lemma to_f64_one: "to_f64 1 = Fin 1"
  using round64_numeral_int [of 1] by simp

lemma formula_at_one: "aeq_formula 1 = Fin 0"
proof -
  obtain c where c: "lit 76.248 = Fin c" "76 \<le> c" "c \<le> 77"
    using lit_76 by blast
  obtain c2 where c2: "lit 0.05261 = Fin c2" "0 \<le> c2" "c2 \<le> 1"
    using lit_005 by blast
  have a1: "to_f64 24844 = Fin 24844"
    using round64_numeral_int [of 24844] by simp
  obtain b1 where b1: "to_f64 c = Fin b1" "76 \<le> b1" "b1 \<le> 77"
    using to_f64_int_bounds [of 76 c 77] c by auto
  have "of_int 24767 \<le> 24844 - b1" "24844 - b1 \<le> of_int 24768"
    using b1 by simp_all
  then obtain d where d: "to_f64 (24844 - b1) = Fin d" "24767 \<le> d" "d \<le> 24768"
    using to_f64_int_bounds [of 24767 "24844 - b1" 24768] by auto
  have "of_int 24767 \<le> d + c2" "d + c2 \<le> of_int 24769"
    using d c2 by simp_all
  then obtain e where e: "to_f64 (d + c2) = Fin e" "24767 \<le> e"
    using to_f64_int_bounds [of 24767 "d + c2" 24769] by auto
  have "(2::real) ^ 1024 \<le> 2 ^ 24767"
    by (rule power_increasing) simp_all
  also have "\<dots> \<le> exp (real 24767)" by (rule exp_nat_lower)
  also have "\<dots> \<le> exp e" using e(2) by simp
  finally have "to_f64 (exp e) = PInf" by (rule to_f64_overflow)
  then show ?thesis
    using c c2 a1 b1 d e by (simp add: aeq_formula_def fl_sub_def to_f64_one)
qed

lemma square_underflow: "to_f64 (1 / 2 ^ 600 * (1 / 2 ^ 600)) = Fin 0"
proof -
  have "(1 / 2 ^ 600 * (1 / 2 ^ 600) :: real) = 1 / 2 ^ 1200"
    by (simp add: power_add [symmetric])
  also have "\<dots> = 2 powr (- 1200)"
    by (simp add: powr_minus_divide)
  also have "\<dots> \<le> 2 powr (- 1075)" by simp
  finally have "round64 (1 / 2 ^ 600 * (1 / 2 ^ 600)) = 0"
    by (intro round64_tiny_pos) simp_all
  then show ?thesis by (simp add: to_f64_def)
qed

lemma square_overflow: "to_f64 (2 ^ 600 * 2 ^ 600) = PInf"
proof -
  have "(2::real) ^ 1024 \<le> 2 ^ 1200" by (rule power_increasing) simp_all
  also have "\<dots> = 2 ^ 600 * 2 ^ 600" by (simp add: power_add [symmetric])
  finally show ?thesis by (rule to_f64_overflow)
qed

lemma square_nonzero:
  assumes "1 / 2 ^ 500 \<le> \<bar>x\<bar>" "\<bar>x\<bar> \<le> 2 ^ 500"
  shows "\<exists>s. to_f64 (x * x) = Fin s \<and> s \<noteq> 0"
proof -
  have xx: "x * x = \<bar>x\<bar> * \<bar>x\<bar>" by simp
  have "(2::real) powr of_int (- 1000) = 1 / 2 ^ 500 * (1 / 2 ^ 500)"
    by (simp add: powr_minus_divide power_add [symmetric])
  also have "\<dots> \<le> \<bar>x\<bar> * \<bar>x\<bar>"
    using assms(1) by (intro mult_mono) simp_all
  finally have lo: "2 powr of_int (- 1000) \<le> x * x" by (simp only: xx)
  have "\<bar>x\<bar> * \<bar>x\<bar> \<le> 2 ^ 500 * 2 ^ 500"
    using assms(2) by (intro mult_mono) simp_all
  also have "\<dots> = (2::real) powr of_int 1000"
    by (simp only: power_add [symmetric]) simp
  finally have hi: "x * x \<le> 2 powr of_int 1000" by (simp only: xx)
  obtain s where s: "to_f64 (x * x) = Fin s" "2 powr of_int (- 1000) \<le> s"
    using to_f64_pow2_bounds [OF lo hi] by auto
  have "0 < s" using s(2) by (rule less_le_trans [rotated]) simp
  with s(1) show ?thesis by auto
qed

lemma kelvin_in_range:
  assumes "- 267 \<le> x" "x \<le> 2 ^ 499"
  shows "\<exists>y. fl_add (Fin x) (lit 273.15) = Fin y \<and> 6 \<le> y \<and> y \<le> 2 ^ 500"
proof -
  obtain c where c: "lit 273.15 = Fin c" "273 \<le> c" "c \<le> 274"
    using lit_273 by blast
  have lo: "round64 6 = 6" using round64_int [of 6] by simp
  have hi: "round64 (2 powr of_int 500) = 2 powr of_int 500"
    by (rule round64_pow2) simp
  have a: "6 \<le> x + c" using assms(1) c(2) by simp
  have "(274::real) \<le> 2 ^ 499"
    by (rule order_trans [of _ "2 ^ 9"]) (simp, rule power_increasing, simp_all)
  with assms(2) c(3) have "x + c \<le> 2 ^ 499 + 2 ^ 499" by simp
  also have "\<dots> = (2::real) powr of_int 500" by simp
  finally have b: "x + c \<le> 2 powr of_int 500" .
  have h2: "(2::real) powr of_int 500 < 2 ^ 1024" by simp
  show ?thesis
    using to_f64_between [OF lo _ hi h2 a b] c(1) by simp
qed

lemma both_py_iff: "both_py a b \<longleftrightarrow> is_py a \<and> is_py b"
  by (cases a; cases b) simp_all

lemma is_py_kind_of [simp]: "is_py (kind_of a b v) \<longleftrightarrow> is_py a \<and> is_py b"
  by (simp add: kind_of_def both_py_iff)

lemma to_f64_minus: "to_f64 (- x) = np_neg (to_f64 x)"
  by (simp add: to_f64_def Let_def round64_minus)

lemma to_f64_int: "\<bar>m\<bar> < 2 ^ 53 \<Longrightarrow> to_f64 (of_int m) = Fin (of_int m)"
  by (rule round64_numeral_int)

lemma aeq_numpy_returns: "\<exists>a. aeq (Np w) = Inr a"
  by (simp add: aeq_def num_pow2_def num_div_def)

lemma aeq_python_zero: "aeq (Py (Fin 0)) = Inl ZeroDivisionError"
  by (simp add: aeq_python)

lemma kelvin_zero: "num_add (Py (lit (- 273.15))) (Py (lit 273.15)) = Py (Fin 0)"
proof -
  obtain c where c: "lit 273.15 = Fin c"
    using lit_273 by blast
  then have "lit (- 273.15) = Fin (- c)"
    using to_f64_minus [of "273.15"] by (simp add: lit_def)
  with c show ?thesis by (simp add: num_add_def kind_of_def)
qed

text \<open>
  C2, as stated for every numeric triple, fails for the Python float \<open>T = -273.15\<close>:
  the Kelvin temperature is then \<open>0.0\<close>, \<^verbatim>\<open>aeq\<close> divides by its square, and the call
  raises instead of returning a value.
\<close>

theorem absolute_zero_example:
  "get_dDdeq (Py (lit (- 273.15))) (lit (- 80)) (lit (- 50)) = Inl ZeroDivisionError"
  unfolding get_dDdeq_def kelvin_zero aeq_python_zero by simp

text \<open>
  C3, as stated for every \<open>T \<noteq> 0\<close>, fails for the Python float \<open>T = 2\<^sup>-\<^sup>6\<^sup>0\<^sup>0\<close>:
  its square underflows to \<open>0.0\<close> and \<^verbatim>\<open>aeq\<close> raises \<^verbatim>\<open>ZeroDivisionError\<close>.
\<close>

theorem tiny_temperature_example:
  "(1 / 2 ^ 600 :: real) \<noteq> 0 \<and> aeq (Py (Fin (1 / 2 ^ 600))) = Inl ZeroDivisionError"
  using aeq_python [of "1 / 2 ^ 600"] unfolding square_underflow by simp

text \<open>
  C7, as stated for every \<open>T > 0\<close>, fails at \<open>T = 1.0\<close>: the exponent is about
  \<open>24767.8\<close>, \<^verbatim>\<open>np.exp\<close> overflows to infinity, and \<^verbatim>\<open>aeq\<close> returns \<open>1 / inf = 0.0\<close>,
  which is not strictly positive.
\<close>

theorem one_kelvin_example: "aeq (Py (Fin 1)) = Inr (Fin 0)"
  by (simp add: aeq_python to_f64_one formula_at_one)

lemma huge_temperature_raises: "aeq (Py (Fin (2 ^ 600))) = Inl OverflowError"
  using aeq_python [of "2 ^ 600"] unfolding square_overflow by simp

text \<open>
  C3, amended. \<^verbatim>\<open>aeq\<close> applied to a finite float \<open>T\<close> returns exactly the \<^verbatim>\<open>float64\<close>
  evaluation of \<open>1 / exp (24844 / T\<^sup>2 - 76.248 / T + 0.05261)\<close>: for every numpy
  \<^verbatim>\<open>float64\<close> \<open>T\<close>, and for every Python float \<open>T\<close> whose square is a nonzero finite
  \<^verbatim>\<open>float64\<close>, in particular whenever \<open>2\<^sup>-\<^sup>5\<^sup>0\<^sup>0 \<le> |T| \<le> 2\<^sup>5\<^sup>0\<^sup>0\<close>. For a Python float it
  raises \<^verbatim>\<open>ZeroDivisionError\<close> when the square is \<open>0.0\<close> (at \<open>T = 0\<close>, and where the
  square underflows) and \<^verbatim>\<open>OverflowError\<close> when the square overflows.
\<close>

theorem aeq_float_formula:
  "aeq (Np (Fin x)) = Inr (aeq_formula x) \<and>
   aeq (Py (Fin x)) =
     (case to_f64 (x * x) of
        Fin s \<Rightarrow> if s = 0 then Inl ZeroDivisionError else Inr (aeq_formula x)
      | _ \<Rightarrow> Inl OverflowError) \<and>
   (1 / 2 ^ 500 \<le> \<bar>x\<bar> \<and> \<bar>x\<bar> \<le> 2 ^ 500 \<longrightarrow> aeq (Py (Fin x)) = Inr (aeq_formula x))"
proof (intro conjI impI)
  show "aeq (Np (Fin x)) = Inr (aeq_formula x)" by (rule aeq_numpy)
  show "aeq (Py (Fin x)) =
     (case to_f64 (x * x) of
        Fin s \<Rightarrow> if s = 0 then Inl ZeroDivisionError else Inr (aeq_formula x)
      | _ \<Rightarrow> Inl OverflowError)" by (rule aeq_python)
  assume "1 / 2 ^ 500 \<le> \<bar>x\<bar> \<and> \<bar>x\<bar> \<le> 2 ^ 500"
  then obtain s where "to_f64 (x * x) = Fin s" "s \<noteq> 0"
    using square_nonzero [of x] by blast
  then show "aeq (Py (Fin x)) = Inr (aeq_formula x)"
    by (simp add: aeq_python)
qed

theorem aeq_float_formula_witness:
  "1 / 2 ^ 500 \<le> \<bar>300 :: real\<bar> \<and> \<bar>300 :: real\<bar> \<le> 2 ^ 500 \<and>
   aeq (Py (Fin 300)) = Inr (aeq_formula 300)"
proof -
  have "(1 / 2 ^ 500 :: real) \<le> 1" by simp
  then have a: "1 / 2 ^ 500 \<le> \<bar>300 :: real\<bar>" by simp
  have "(300 :: real) \<le> 2 ^ 9" by simp
  also have "\<dots> \<le> 2 ^ 500" by (rule power_increasing) simp_all
  finally have b: "\<bar>300 :: real\<bar> \<le> 2 ^ 500" by simp
  from a b aeq_float_formula [of 300] show ?thesis by blast
qed

lemma aeq_range_positive:
  assumes "val T = Fin x" and "6 \<le> x" and "x \<le> 2 ^ 500"
  shows "\<exists>a. aeq T = Inr (Fin a) \<and> 0 < a"
proof -
  obtain s where s: "to_f64 (x * x) = Fin s" "36 \<le> s"
    using square_in_range [OF assms(2,3)] by blast
  obtain a where a: "aeq_formula x = Fin a" "0 < a"
    using formula_positive [OF assms(2,3)] by blast
  from s have "aeq (Py (Fin x)) = Inr (aeq_formula x)"
    by (simp add: aeq_python)
  moreover have "aeq (Np (Fin x)) = Inr (aeq_formula x)" by (rule aeq_numpy)
  ultimately have "aeq T = Inr (aeq_formula x)"
    using assms(1) by (cases T) simp_all
  with a show ?thesis by simp
qed

text \<open>
  C7, amended. For every finite float \<open>T\<close> with \<open>6 \<le> T \<le> 2\<^sup>5\<^sup>0\<^sup>0\<close> (Kelvin), a Python
  float or a numpy \<^verbatim>\<open>float64\<close>, \<^verbatim>\<open>aeq(T)\<close> returns a finite, strictly positive value.
\<close>

theorem aeq_positive_in_range:
  assumes "val T = Fin x" and "6 \<le> x" and "x \<le> 2 ^ 500"
  shows "\<exists>a. aeq T = Inr (Fin a) \<and> 0 < a"
  using assms by (rule aeq_range_positive)

theorem aeq_positive_in_range_witness:
  "val (Py (Fin 300)) = Fin 300 \<and> (6::real) \<le> 300 \<and> (300::real) \<le> 2 ^ 500 \<and>
   (\<exists>a. aeq (Py (Fin 300)) = Inr (Fin a) \<and> 0 < a)"
proof -
  have "(300 :: real) \<le> 2 ^ 9" by simp
  also have "\<dots> \<le> 2 ^ 500" by (rule power_increasing) simp_all
  finally have b: "(300 :: real) \<le> 2 ^ 500" .
  with aeq_positive_in_range [of "Py (Fin 300)" 300] show ?thesis by simp
qed

lemma get_dDdeq_unfold:
  "get_dDdeq T dDv dDr =
     (case aeq (num_add T (Py (lit 273.15))) of
        Inl e \<Rightarrow> Inl e
      | Inr a \<Rightarrow> Inr (fl_sub dDv (fl_sub (fl_mul a (fl_add dDr (Fin 1000))) (Fin 1000))))"
  by (simp only: get_dDdeq_def Let_def)

lemma get_dDdeq_python_returns:
  assumes "- 267 \<le> x" "x \<le> 2 ^ 499"
  shows "\<exists>a. aeq (num_add (Py (Fin x)) (Py (lit 273.15))) = Inr (Fin a) \<and> 0 < a"
proof -
  obtain y where y: "fl_add (Fin x) (lit 273.15) = Fin y" "6 \<le> y" "y \<le> 2 ^ 500"
    using kelvin_in_range [OF assms] by blast
  then have "val (num_add (Py (Fin x)) (Py (lit 273.15))) = Fin y"
    by (simp add: num_add_def)
  then show ?thesis using y(2,3) by (rule aeq_range_positive)
qed

lemma get_dDdeq_numpy_returns: "\<exists>r. get_dDdeq (Np v) dDv dDr = Inr r"
proof -
  obtain a where "aeq (num_add (Np v) (Py (lit 273.15))) = Inr a"
    using aeq_numpy_returns [of "fl_add v (lit 273.15)"] by (auto simp add: num_add_def kind_of_def)
  then show ?thesis by (simp only: get_dDdeq_unfold) simp
qed

lemma get_dDdeq_zero_kelvin:
  "get_dDdeq (Py (lit (- 273.15))) dDv dDr = Inl ZeroDivisionError"
  unfolding get_dDdeq_def kelvin_zero aeq_python_zero by simp

text \<open>
  C2, amended. \<^verbatim>\<open>get_dDdeq\<close> applied to floats \<open>(T, dDv, dDr)\<close> raises exactly when
  \<^verbatim>\<open>aeq(T + 273.15)\<close> raises, with the same error; otherwise it forms
  \<open>dDeq = aeq (T + 273.15) * (dDr + 1000) - 1000\<close> and returns exactly \<open>dDv - dDeq\<close>,
  each operation in \<^verbatim>\<open>float64\<close>. It returns for every numpy \<^verbatim>\<open>float64\<close> \<open>T\<close> and for
  every Python float \<open>T\<close> with \<open>-267 \<le> T \<le> 2\<^sup>4\<^sup>9\<^sup>9\<close>; for the Python float
  \<open>T = -273.15\<close> it raises \<^verbatim>\<open>ZeroDivisionError\<close>.
\<close>

theorem get_dDdeq_formula:
  "get_dDdeq T dDv dDr =
     (case aeq (num_add T (Py (lit 273.15))) of
        Inl e \<Rightarrow> Inl e
      | Inr a \<Rightarrow> Inr (fl_sub dDv (fl_sub (fl_mul a (fl_add dDr (Fin 1000))) (Fin 1000)))) \<and>
   (\<exists>r. get_dDdeq (Np v) dDv dDr = Inr r) \<and>
   (- 267 \<le> x \<and> x \<le> 2 ^ 499 \<longrightarrow> (\<exists>r. get_dDdeq (Py (Fin x)) dDv dDr = Inr r)) \<and>
   get_dDdeq (Py (lit (- 273.15))) dDv dDr = Inl ZeroDivisionError"
proof (intro conjI impI)
  show "get_dDdeq T dDv dDr =
     (case aeq (num_add T (Py (lit 273.15))) of
        Inl e \<Rightarrow> Inl e
      | Inr a \<Rightarrow> Inr (fl_sub dDv (fl_sub (fl_mul a (fl_add dDr (Fin 1000))) (Fin 1000))))"
    by (rule get_dDdeq_unfold)
  show "\<exists>r. get_dDdeq (Np v) dDv dDr = Inr r"
    by (rule get_dDdeq_numpy_returns)
  show "get_dDdeq (Py (lit (- 273.15))) dDv dDr = Inl ZeroDivisionError"
    by (rule get_dDdeq_zero_kelvin)
  assume "- 267 \<le> x \<and> x \<le> 2 ^ 499"
  then obtain a where "aeq (num_add (Py (Fin x)) (Py (lit 273.15))) = Inr (Fin a)"
    using get_dDdeq_python_returns [of x] by blast
  then show "\<exists>r. get_dDdeq (Py (Fin x)) dDv dDr = Inr r"
    by (simp only: get_dDdeq_unfold) simp
qed

theorem get_dDdeq_formula_witness:
  "(- 267 :: real) \<le> 0 \<and> (0 :: real) \<le> 2 ^ 499 \<and>
   (\<exists>r. get_dDdeq (Py (Fin 0)) (lit (- 80)) (lit (- 50)) = Inr r)"
proof -
  have h: "(- 267 :: real) \<le> 0 \<and> (0 :: real) \<le> 2 ^ 499" by simp
  from get_dDdeq_formula [of "Py (Fin 0)" "lit (- 80)" "lit (- 50)" "Fin 0" 0] h
  show ?thesis by blast
qed

lemma round64_example: "round64 (2 ^ 70 + 1000) = 2 ^ 70"
proof -
  define x :: real where "x = 2 ^ 70 + 1000"
  have lo: "2 powr of_int 70 \<le> x" by (simp add: x_def)
  have "x < 2 ^ 70 + 2 ^ 70" by (simp add: x_def)
  then have hi: "x < 2 powr of_int (70 + 1)" by simp
  have "binade x = 70" using lo hi by (rule binade_eq) simp
  then have u: "ulp x = 2 ^ 18" by (simp add: ulp_def)
  have q: "x / 2 ^ 18 = of_int (2 ^ 52) + 1000 / 2 ^ 18"
    by (simp add: x_def add_divide_distrib)
  have "\<lfloor>x / 2 ^ 18\<rfloor> = 2 ^ 52"
    unfolding q by (simp add: floor_eq_iff)
  moreover from this have "x / 2 ^ 18 - of_int \<lfloor>x / 2 ^ 18\<rfloor> = 1000 / 2 ^ 18"
    using q by simp
  ultimately have "rne (x / 2 ^ 18) = 2 ^ 52"
    by (simp add: rne_def Let_def)
  then have "round64 x = of_int (2 ^ 52) * 2 ^ 18"
    by (simp only: round64_def u)
  then show ?thesis by (simp add: x_def)
qed

lemma to_f64_example: "to_f64 (2 ^ 70 + 1000) = Fin (2 ^ 70)"
proof -
  have "(2::real) ^ 70 < 2 ^ 1024" by (rule power_strict_increasing) simp_all
  moreover have "- (2 ^ 1024) < (0::real)" by simp
  moreover have "(0::real) < 2 ^ 70" by simp
  ultimately show ?thesis
    by (simp only: to_f64_def round64_example Let_def) simp
qed

lemma zero_minus_1000: "fl_sub (Fin 0) (Fin 1000) = Fin (- 1000)"
proof -
  have "to_f64 (- 1000) = Fin (- 1000)"
    using to_f64_int [of "- 1000"] by simp
  then show ?thesis by (simp add: fl_sub_def)
qed

text \<open>
  C6, as stated with equality of the returned floats, fails by rounding: with
  \<open>T = 25\<close>, \<open>dDr = -1000\<close> (so that \<open>dDeq = -1000\<close>), \<open>dDv = 2\<^sup>7\<^sup>0\<close> and
  \<open>k = -2\<^sup>7\<^sup>0\<close>, \<^verbatim>\<open>get_dDdeq(T, dDv + k, dDr)\<close> is \<open>1000.0\<close>, while
  \<^verbatim>\<open>get_dDdeq(T, dDv, dDr) + k\<close> is \<open>0.0\<close>, because \<open>2\<^sup>7\<^sup>0 + 1000\<close> rounds to
  \<open>2\<^sup>7\<^sup>0\<close>.
\<close>

theorem rounding_example:
  "get_dDdeq (Py (Fin 25)) (fl_add (Fin (2 ^ 70)) (Fin (- (2 ^ 70)))) (Fin (- 1000))
     = Inr (Fin 1000) \<and>
   (case get_dDdeq (Py (Fin 25)) (Fin (2 ^ 70)) (Fin (- 1000)) of
      Inl e \<Rightarrow> Inl e
    | Inr r \<Rightarrow> Inr (fl_add r (Fin (- (2 ^ 70))))) = Inr (Fin 0)"
proof -
  have "(25 :: real) \<le> 2 ^ 5" by simp
  also have "\<dots> \<le> 2 ^ 499" by (rule power_increasing) simp_all
  finally have "(25 :: real) \<le> 2 ^ 499" .
  then obtain a where a: "aeq (num_add (Py (Fin 25)) (Py (lit 273.15))) = Inr (Fin a)"
    using get_dDdeq_python_returns [of 25] by auto
  have run: "get_dDdeq (Py (Fin 25)) d (Fin (- 1000)) = Inr (fl_sub d (Fin (- 1000)))" for d
    unfolding get_dDdeq_unfold a by (simp add: zero_minus_1000)
  have k: "fl_add (Fin (2 ^ 70)) (Fin (- (2 ^ 70))) = Fin 0" by simp
  have t: "to_f64 1000 = Fin 1000" using to_f64_int [of 1000] by simp
  have one: "fl_sub (Fin 0) (Fin (- 1000)) = Fin 1000"
    using t by (simp add: fl_sub_def)
  have two: "fl_sub (Fin (2 ^ 70)) (Fin (- 1000)) = Fin (2 ^ 70)"
    using to_f64_example by (simp add: fl_sub_def)
  show ?thesis
    by (simp only: run k one two) simp
qed

text \<open>
  C6, amended. \<^verbatim>\<open>get_dDdeq\<close> is affine in \<open>dDv\<close> with unit slope up to \<^verbatim>\<open>float64\<close>
  rounding. For all floats \<open>T\<close>, \<open>dDv\<close>, \<open>dDr\<close>, \<open>k\<close> the calls
  \<^verbatim>\<open>get_dDdeq(T, dDv + k, dDr)\<close> and \<^verbatim>\<open>get_dDdeq(T, dDv, dDr)\<close> raise the same error or
  both return; when they return, the first is \<open>(dDv + k) - dDeq\<close> and the second
  \<open>dDv - dDeq\<close> for one and the same \<open>dDeq\<close>, each sum and difference rounded. Adding
  \<open>k\<close> to the second gives the first whenever \<open>dDv + k\<close> and \<open>dDv - dDeq\<close> are
  exact in \<^verbatim>\<open>float64\<close>.
\<close>

theorem get_dDdeq_affine:
  "(case aeq (num_add T (Py (lit 273.15))) of
      Inl e \<Rightarrow> get_dDdeq T (fl_add dDv k) dDr = Inl e \<and> get_dDdeq T dDv dDr = Inl e
    | Inr a \<Rightarrow>
        get_dDdeq T (fl_add dDv k) dDr =
          Inr (fl_sub (fl_add dDv k) (fl_sub (fl_mul a (fl_add dDr (Fin 1000))) (Fin 1000))) \<and>
        get_dDdeq T dDv dDr =
          Inr (fl_sub dDv (fl_sub (fl_mul a (fl_add dDr (Fin 1000))) (Fin 1000)))) \<and>
   (to_f64 (u + w) = Fin (u + w) \<and> to_f64 (u - z) = Fin (u - z) \<longrightarrow>
      fl_sub (fl_add (Fin u) (Fin w)) (Fin z) = fl_add (fl_sub (Fin u) (Fin z)) (Fin w))"
proof (intro conjI impI)
  show "case aeq (num_add T (Py (lit 273.15))) of
      Inl e \<Rightarrow> get_dDdeq T (fl_add dDv k) dDr = Inl e \<and> get_dDdeq T dDv dDr = Inl e
    | Inr a \<Rightarrow>
        get_dDdeq T (fl_add dDv k) dDr =
          Inr (fl_sub (fl_add dDv k) (fl_sub (fl_mul a (fl_add dDr (Fin 1000))) (Fin 1000))) \<and>
        get_dDdeq T dDv dDr =
          Inr (fl_sub dDv (fl_sub (fl_mul a (fl_add dDr (Fin 1000))) (Fin 1000)))"
    by (cases "aeq (num_add T (Py (lit 273.15)))") (simp_all only: get_dDdeq_unfold, simp_all)
next
  assume ex: "to_f64 (u + w) = Fin (u + w) \<and> to_f64 (u - z) = Fin (u - z)"
  have "to_f64 (u + w - z) = to_f64 (u - z + w)"
    by (rule arg_cong [where f = to_f64]) simp
  with ex show "fl_sub (fl_add (Fin u) (Fin w)) (Fin z) = fl_add (fl_sub (Fin u) (Fin z)) (Fin w)"
    by (simp add: fl_sub_def)
qed

theorem get_dDdeq_affine_witness:
  "to_f64 (1 + 2) = Fin (1 + 2) \<and> to_f64 (1 - 3) = Fin (1 - 3) \<and>
   fl_sub (fl_add (Fin 1) (Fin 2)) (Fin 3) = fl_add (fl_sub (Fin 1) (Fin 3)) (Fin 2)"
proof -
  have a: "to_f64 (1 + 2) = Fin (1 + 2)" using to_f64_int [of 3] by simp
  have b: "to_f64 (1 - 3) = Fin (1 - 3)" using to_f64_int [of "- 2"] by simp
  from a b get_dDdeq_affine [of _ _ _ _ 1 2 3] show ?thesis by blast
qed

section \<open>Properties of the Rayleigh adapter\<close>

text \<open>
  C8. \<^verbatim>\<open>calc_rayleigh\<close> returns exactly what the generator returns for the arguments
  \<open>(T0, rh0, dD0, f, T_g)\<close> in that order, with \<open>f = 1\<close> and \<open>T_g = -30\<close> where
  omitted, and leaves the result as it is.
\<close>

theorem calc_rayleigh_passthrough:
  "calc_rayleigh RayleighTropen T0 rh0 dD0 (Some f) (Some T_g) =
     RayleighTropen T0 rh0 dD0 f T_g \<and>
   calc_rayleigh RayleighTropen T0 rh0 dD0 None (Some T_g) =
     RayleighTropen T0 rh0 dD0 (PyNum 1) T_g \<and>
   calc_rayleigh RayleighTropen T0 rh0 dD0 (Some f) None =
     RayleighTropen T0 rh0 dD0 f (PyNum (- 30)) \<and>
   calc_rayleigh RayleighTropen T0 rh0 dD0 None None =
     RayleighTropen T0 rh0 dD0 (PyNum 1) (PyNum (- 30))"
  by (simp add: calc_rayleigh_def)

section \<open>Properties of the mixing curve\<close>

lemma length_linspace: "length (linspace a b) = 50"
  by (simp add: linspace_def Let_def)

lemma linspace_ne: "linspace a b \<noteq> []"
  using length_linspace [of a b] by auto

lemma linspace_Fin_nth:
  assumes "i < 50"
  shows "linspace (Fin a) (Fin b) ! i = Fin (a + real i * ((b - a) / 49))"
proof (cases "i = 49")
  case True
  have "linspace (Fin a) (Fin b) ! 49 = Fin b"
    by (simp add: linspace_def Let_def)
  moreover have "a + real (49::nat) * ((b - a) / 49) = b"
    by (simp add: diff_divide_distrib)
  ultimately show ?thesis using True by (simp only:)
next
  case False
  with assms have "i < 49" by simp
  then show ?thesis
    by (simp add: linspace_def Let_def np_sub_def nth_list_update add.commute)
qed

lemma hd_linspace: "hd (linspace (Fin a) (Fin b)) = Fin a"
  using linspace_Fin_nth [of 0 a b] linspace_ne [of "Fin a" "Fin b"]
  by (simp add: hd_conv_nth)

lemma last_linspace: "last (linspace a b) = b"
  using linspace_ne [of a b]
  by (simp add: last_conv_nth length_linspace linspace_def Let_def)

lemma length_mixing_samples: "length (mixing_samples q0 q1 l_log) = 50"
  by (simp add: mixing_samples_def length_linspace)

lemma mixing_samples_ne: "mixing_samples q0 q1 l_log \<noteq> []"
  using length_mixing_samples [of q0 q1 l_log] by auto

lemma hd_mixing_samples:
  assumes "0 < q0" "0 < q1"
  shows "hd (mixing_samples q0 q1 l_log) = Fin q0"
  using assms linspace_ne by (simp add: mixing_samples_def hd_map hd_linspace)

lemma last_mixing_samples:
  assumes "0 < q0" "0 < q1"
  shows "last (mixing_samples q0 q1 l_log) = Fin q1"
  using assms linspace_ne by (simp add: mixing_samples_def last_map last_linspace)

lemma calc_mixing_equal:
  "calc_mixing (q, dD0) (q, dD1) l_log = Inl ZeroDivisionError"
  by (simp add: calc_mixing_def py_div_def Let_def)

lemma calc_mixing_distinct:
  assumes "q0 \<noteq> q1"
  shows "calc_mixing (q0, dD0) (q1, dD1) l_log =
    Inr (mixing_samples q0 q1 l_log,
         map (\<lambda>qi. np_add (np_mul (Fin (q0 * (dD0 - (dD1 * q1 - dD0 * q0) / (q1 - q0))))
                                   (np_div (Fin 1) qi))
                           (Fin ((dD1 * q1 - dD0 * q0) / (q1 - q0))))
          (mixing_samples q0 q1 l_log))"
  using assms by (simp add: calc_mixing_def py_div_def Let_def)

lemma mixing_law_first:
  fixes q0 dD0 F :: real
  assumes "q0 \<noteq> 0"
  shows "q0 * (dD0 - F) * (1 / q0) + F = dD0"
  using assms by simp

lemma mixing_law_last:
  fixes q0 q1 dD0 dD1 :: real
  assumes q1: "q1 \<noteq> 0" and ne: "q0 \<noteq> q1"
  defines "F \<equiv> (dD1 * q1 - dD0 * q0) / (q1 - q0)"
  shows "q0 * (dD0 - F) * (1 / q1) + F = dD1"
proof -
  from ne have d: "q1 - q0 \<noteq> 0" by simp
  have "dD0 - F = q1 * ((dD0 - dD1) / (q1 - q0))"
    unfolding F_def using d by (simp add: field_simps)
  then have "q0 * (dD0 - F) * (1 / q1) = q0 * ((dD0 - dD1) / (q1 - q0))"
    using q1 by simp
  moreover have "q0 * ((dD0 - dD1) / (q1 - q0)) + F = dD1 * (q1 - q0) / (q1 - q0)"
    unfolding F_def by (simp add: add_divide_distrib [symmetric] algebra_simps)
  ultimately show ?thesis using d by simp
qed

text \<open>
  C1. For endpoints with \<open>q0 > 0\<close>, \<open>q1 > 0\<close> and \<open>q0 \<noteq> q1\<close>, in either spacing
  mode, \<^verbatim>\<open>calc_mixing\<close> returns, the first and last samples of \<open>q\<close> are \<open>q0\<close> and
  \<open>q1\<close>, and the first and last \<open>dD\<close> values are exactly \<open>dD0\<close> and \<open>dD1\<close>.
\<close>

theorem calc_mixing_endpoints:
  assumes "0 < q0" and "0 < q1" and "q0 \<noteq> q1"
  shows "\<exists>q dD. calc_mixing (q0, dD0) (q1, dD1) l_log = Inr (q, dD) \<and>
           hd q = Fin q0 \<and> last q = Fin q1 \<and> hd dD = Fin dD0 \<and> last dD = Fin dD1"
proof -
  let ?F = "(dD1 * q1 - dD0 * q0) / (q1 - q0)"
  let ?g = "\<lambda>qi. np_add (np_mul (Fin (q0 * (dD0 - ?F))) (np_div (Fin 1) qi)) (Fin ?F)"
  let ?q = "mixing_samples q0 q1 l_log"
  have run: "calc_mixing (q0, dD0) (q1, dD1) l_log = Inr (?q, map ?g ?q)"
    using assms(3) by (rule calc_mixing_distinct)
  have nz: "q0 \<noteq> 0" "q1 \<noteq> 0"
    using assms by simp_all
  have first: "hd ?q = Fin q0" and final: "last ?q = Fin q1"
    using assms by (simp_all add: hd_mixing_samples last_mixing_samples)
  have "hd (map ?g ?q) = ?g (Fin q0)"
    using first mixing_samples_ne by (simp add: hd_map)
  also have "\<dots> = Fin (q0 * (dD0 - ?F) * (1 / q0) + ?F)"
    using assms(1) by simp
  also have "\<dots> = Fin dD0"
    by (rule arg_cong [where f = Fin]) (rule mixing_law_first [OF nz(1)])
  finally have a: "hd (map ?g ?q) = Fin dD0" .
  have "last (map ?g ?q) = ?g (Fin q1)"
    using final mixing_samples_ne by (simp add: last_map)
  also have "\<dots> = Fin (q0 * (dD0 - ?F) * (1 / q1) + ?F)"
    using assms(2) by simp
  also have "\<dots> = Fin dD1"
    by (rule arg_cong [where f = Fin]) (rule mixing_law_last [OF nz(2) assms(3)])
  finally have b: "last (map ?g ?q) = Fin dD1" .
  from run first final a b show ?thesis by blast
qed

theorem calc_mixing_endpoints_witness:
  "(0::real) < 50 \<and> (0::real) < 15300 \<and> (50::real) \<noteq> 15300 \<and>
   (\<exists>q dD. calc_mixing (50, - 700) (15300, - 150) True = Inr (q, dD) \<and>
      hd q = Fin 50 \<and> last q = Fin 15300 \<and> hd dD = Fin (- 700) \<and> last dD = Fin (- 150))"
  using calc_mixing_endpoints [of 50 15300 "- 700" "- 150" True] by simp

text \<open>
  C4. Whatever the endpoints and the spacing mode, the two sequences that
  \<^verbatim>\<open>calc_mixing\<close> returns have length 50 each; and it does return them whenever the
  two mixing ratios differ.
\<close>

theorem calc_mixing_lengths:
  "(\<forall>q dD. calc_mixing p0 p1 l_log = Inr (q, dD) \<longrightarrow> length q = 50 \<and> length dD = 50) \<and>
   (fst p0 \<noteq> fst p1 \<longrightarrow> (\<exists>q dD. calc_mixing p0 p1 l_log = Inr (q, dD)))"
proof -
  obtain q0 dD0 q1 dD1 where p: "p0 = (q0, dD0)" "p1 = (q1, dD1)"
    by (cases p0, cases p1) auto
  show ?thesis
  proof (cases "q0 = q1")
    case True
    then show ?thesis using p by (simp add: calc_mixing_equal)
  next
    case False
    then show ?thesis using p
      by (simp add: calc_mixing_distinct length_mixing_samples)
  qed
qed

theorem calc_mixing_lengths_witness:
  "\<exists>q dD. calc_mixing (1000, - 450) (22000, - 120) False = Inr (q, dD) \<and>
      length q = 50 \<and> length dD = 50"
  using calc_mixing_lengths [of "(1000, - 450)" "(22000, - 120)" False] by auto















lemma numerator_kind:
  "is_py (num_sub (num_mul dD1 q1) (num_mul dD0 q0)) \<longleftrightarrow>
     is_py q0 \<and> is_py dD0 \<and> is_py q1 \<and> is_py dD1"
  by (auto simp add: num_sub_def num_mul_def)



section \<open>Properties of the plot adapters\<close>

lemma plot_mixing_single:
  assumes "q0 \<noteq> q1"
  shows "\<exists>h. plot_mixing ax (Some [((q0, dD0), (q1, dD1))]) lwf c = (Inr h, ax @ [h]) \<and>
             label h = ''mixing'' \<and> length (xdata h) = 50"
  using assms
  by (simp add: plot_mixing_def return_local_def calc_mixing_distinct ax_plot_def Let_def
      length_mixing_samples)

lemma plot_mixing_degenerate:
  "plot_mixing ax (Some [((q, dD0), (q, dD1))]) lwf c = (Inl ZeroDivisionError, ax)"
  by (simp add: plot_mixing_def return_local_def calc_mixing_equal)

text \<open>
  C10. Called with an explicitly empty list, each of \<^verbatim>\<open>plot_rayleigh\<close>,
  \<^verbatim>\<open>plot_superrayleigh\<close> and \<^verbatim>\<open>plot_mixing\<close> leaves the axis as it was and fails with
  \<^verbatim>\<open>UnboundLocalError\<close>: the handle it returns is assigned only inside the loop.
\<close>

theorem plot_empty_list_unbound:
  "plot_rayleigh RayleighTropen ax (Some []) lwf t rh dD0 c = (Inl UnboundLocalError, ax) \<and>
   plot_superrayleigh RayleighTropen ax (Some []) lwf c lxl = (Inl UnboundLocalError, ax) \<and>
   plot_mixing mx_ax (Some []) lwf c = (Inl UnboundLocalError, mx_ax)"
  by (simp add: plot_rayleigh_def plot_superrayleigh_def plot_mixing_def return_local_def)

end
